theory Spec2Isabelle
  imports Complex_Main
begin

section \<open>The flood spread simulation of \<open>03_flood_ca_simulation/simulate.py\<close>\<close>

text \<open>
  The function \<open>simulate\<close> takes a two-dimensional numpy array of elevations and four
  scalars and returns a two-dimensional array of water depths. A two-dimensional array is
  modelled as the list of its rows; a numpy array is rectangular, which the predicate
  \<open>is_grid\<close> states. An array with no rows is the empty list (its column count is then
  taken to be 0). The array elements are float64 in the source and exact reals here: every
  statement below is about exact arithmetic; rounding, infinities and NaN are not modelled.
  The elevation array is a float array, as the docstring (elevations in metres) and
  \<open>make_synthetic_dem\<close> have it, and \<open>steps\<close> is a Python int: an integer array, on which
  \<open>water += rain_per_step\<close> does not type-check in numpy, is outside the type \<open>grid\<close>.

  The source raises in two places: the division by \<open>steps\<close> when \<open>steps\<close> is 0, and
  the border slices \<open>water[0,:]\<close>, \<open>water[:,0]\<close> on an array with no rows or no columns.
  Both are values of the type \<open>error\<close>.
\<close>

subsection \<open>Arrays\<close>

type_synonym grid = "real list list"

datatype error = ZeroDivisionError | IndexError

definition is_grid :: "nat \<Rightarrow> nat \<Rightarrow> grid \<Rightarrow> bool" where
  "is_grid R C g \<longleftrightarrow> length g = R \<and> list_all (\<lambda>row. length row = C) g"

definition ncols :: "grid \<Rightarrow> nat" where
  "ncols g = (case g of [] \<Rightarrow> 0 | row # _ \<Rightarrow> length row)"

definition nonneg :: "grid \<Rightarrow> bool" where
  "nonneg g \<longleftrightarrow> list_all (list_all (\<lambda>d. 0 \<le> d)) g"

definition total_depth :: "grid \<Rightarrow> real" where
  \<comment> \<open>the sum of all cells\<close>
  "total_depth g = sum_list (map sum_list g)"

definition zeros_like :: "grid \<Rightarrow> grid" where
  "zeros_like g = map (map (\<lambda>_. 0)) g"

definition grid_add :: "grid \<Rightarrow> grid \<Rightarrow> grid" where
  \<comment> \<open>\<open>a + b\<close> on arrays of one shape\<close>
  "grid_add a b = map2 (map2 (+)) a b"

definition grid_sub :: "grid \<Rightarrow> grid \<Rightarrow> grid" where
  \<comment> \<open>\<open>a - b\<close> on arrays of one shape\<close>
  "grid_sub a b = map2 (map2 (-)) a b"

definition add_scalar :: "grid \<Rightarrow> real \<Rightarrow> grid" where
  "add_scalar g s = map (map (\<lambda>x. x + s)) g"

definition sub_scalar :: "grid \<Rightarrow> real \<Rightarrow> grid" where
  "sub_scalar g s = map (map (\<lambda>x. x - s)) g"

definition scale :: "real \<Rightarrow> grid \<Rightarrow> grid" where
  \<comment> \<open>\<open>k * g\<close>\<close>
  "scale k g = map (map (\<lambda>x. k * x)) g"

definition clip0 :: "grid \<Rightarrow> grid" where
  \<comment> \<open>\<open>np.clip(g, 0, None)\<close>\<close>
  "clip0 g = map (map (max 0)) g"

definition roll_list :: "int \<Rightarrow> 'a list \<Rightarrow> 'a list" where
  \<comment> \<open>\<open>np.roll\<close> along one axis: the element at index \<open>i\<close> moves to index
      \<open>(i + k) mod n\<close>, so the result at \<open>i\<close> is the input at \<open>(i - k) mod n\<close>\<close>
  "roll_list k xs = rotate (nat ((- k) mod int (length xs))) xs"

definition roll :: "grid \<Rightarrow> int \<Rightarrow> nat \<Rightarrow> grid" where
  \<comment> \<open>\<open>np.roll(g, k, axis=ax)\<close> for \<open>ax\<close> 0 (rows) or 1 (columns)\<close>
  "roll g k ax = (if ax = 0 then roll_list k g else map (roll_list k) g)"

definition py_index :: "nat \<Rightarrow> int \<Rightarrow> nat option" where
  \<comment> \<open>Python's index into an axis of length \<open>n\<close>: a negative index counts from the end\<close>
  "py_index n i =
     (let j = (if i < 0 then int n + i else i)
      in if 0 \<le> j \<and> j < int n then Some (nat j) else None)"

definition mul_row :: "nat \<Rightarrow> real \<Rightarrow> grid \<Rightarrow> grid" where
  \<comment> \<open>row \<open>j\<close> times \<open>k\<close>, for \<open>j\<close> in range\<close>
  "mul_row j k g = g[j := map (\<lambda>x. x * k) (g ! j)]"

definition mul_col :: "nat \<Rightarrow> real \<Rightarrow> grid \<Rightarrow> grid" where
  \<comment> \<open>column \<open>j\<close> times \<open>k\<close>, for \<open>j\<close> in range\<close>
  "mul_col j k g = map (\<lambda>row. row[j := row ! j * k]) g"

definition imul_row :: "int \<Rightarrow> real \<Rightarrow> grid \<Rightarrow> error + grid" where
  \<comment> \<open>\<open>g[i,:] *= k\<close>\<close>
  "imul_row i k g =
     (case py_index (length g) i of
        None \<Rightarrow> Inl IndexError
      | Some j \<Rightarrow> Inr (mul_row j k g))"

definition imul_col :: "int \<Rightarrow> real \<Rightarrow> grid \<Rightarrow> error + grid" where
  \<comment> \<open>\<open>g[:,i] *= k\<close>\<close>
  "imul_col i k g =
     (case py_index (ncols g) i of
        None \<Rightarrow> Inl IndexError
      | Some j \<Rightarrow> Inr (mul_col j k g))"

definition bind :: "error + 'a \<Rightarrow> ('a \<Rightarrow> error + 'b) \<Rightarrow> error + 'b" where
  "bind m f = (case m of Inl e \<Rightarrow> Inl e | Inr x \<Rightarrow> f x)"

subsection \<open>One step of the loop\<close>

definition neighbours :: "(int \<times> int) list" where
  "neighbours = [(-1, 0), (1, 0), (0, -1), (0, 1)]"

definition flux_of :: "grid \<Rightarrow> grid" where
  \<comment> \<open>lines 49 to 53: the sum over the four directions of the positive part of
      \<open>H - shifted\<close>\<close>
  "flux_of H =
     foldl (\<lambda>flux (di, dj).
              let shifted = roll (roll H di 0) dj 1;
                  dH = grid_sub H shifted
              in grid_add flux (clip0 dH))
       (zeros_like H) neighbours"

definition inflow :: "grid \<Rightarrow> grid \<Rightarrow> grid" where
  \<comment> \<open>lines 58 and 59\<close>
  "inflow water moved =
     foldl (\<lambda>water (di, dj).
              grid_add water (scale 0.05 (roll (roll moved (- di) 0) (- dj) 1)))
       water neighbours"

definition edge_outflow :: "grid \<Rightarrow> error + grid" where
  \<comment> \<open>line 66\<close>
  "edge_outflow water =
     bind (imul_row 0 0.7 water) (\<lambda>water.
     bind (imul_row (- 1) 0.7 water) (\<lambda>water.
     bind (imul_col 0 0.7 water) (\<lambda>water.
     imul_col (- 1) 0.7 water)))"

definition step :: "grid \<Rightarrow> real \<Rightarrow> real \<Rightarrow> bool \<Rightarrow> grid \<Rightarrow> error + grid" where
  \<comment> \<open>the body of the loop, lines 42 to 66\<close>
  "step dem rain_per_step infiltration_m allow_edge_outflow water =
     (let water = add_scalar water rain_per_step;
          H = grid_add dem water;
          flux = flux_of H;
          moved = scale 0.2 flux;
          water = clip0 (grid_sub water moved);
          water = inflow water moved;
          water = clip0 (sub_scalar water infiltration_m)
      in if allow_edge_outflow then edge_outflow water else Inr water)"

subsection \<open>The run\<close>

fun run :: "nat \<Rightarrow> grid \<Rightarrow> real \<Rightarrow> real \<Rightarrow> bool \<Rightarrow> grid \<Rightarrow> error + grid" where
  \<comment> \<open>\<open>n\<close> iterations of the loop; an exception ends the run\<close>
  "run 0 dem rain_per_step infiltration_m allow_edge_outflow water = Inr water"
| "run (Suc n) dem rain_per_step infiltration_m allow_edge_outflow water =
     bind (step dem rain_per_step infiltration_m allow_edge_outflow water)
       (run n dem rain_per_step infiltration_m allow_edge_outflow)"

definition simulate :: "grid \<Rightarrow> real \<Rightarrow> int \<Rightarrow> real \<Rightarrow> bool \<Rightarrow> error + grid" where
  \<comment> \<open>\<open>range(steps)\<close> is empty for a negative \<open>steps\<close>\<close>
  "simulate dem rainfall_mm steps infiltration_m allow_edge_outflow =
     (let water = zeros_like dem
      in if steps = 0 then Inl ZeroDivisionError
         else let rain_per_step = (rainfall_mm / 1000) / real_of_int steps
              in run (nat steps) dem rain_per_step infiltration_m allow_edge_outflow water)"

section \<open>The same function on a store of arrays\<close>

text \<open>
  A numpy array is an object: \<open>water += rain_per_step\<close>, \<open>flux += ...\<close> and the slice
  updates of line 66 write into an existing array, while \<open>dem + water\<close>, \<open>np.roll\<close>,
  \<open>np.clip\<close>, \<open>np.zeros_like\<close> and \<open>0.2 * flux\<close> make a new one, and
  \<open>water = np.clip(...)\<close> binds the name \<open>water\<close> to a new array. The store is the list
  of all arrays made so far, an address is an index into it, \<open>new\<close> appends. The functions
  below are \<open>simulate\<close> statement by statement on that store; an exception leaves the store
  as it is at the raise. A name of the program always refers to an array that exists, so
  the statements about these functions take the address of \<open>dem\<close> inside the store.
\<close>

type_synonym addr = nat

type_synonym store = "grid list"

definition new :: "store \<Rightarrow> grid \<Rightarrow> addr \<times> store" where
  \<comment> \<open>a new array holding \<open>g\<close>, at the next free address\<close>
  "new s g = (length s, s @ [g])"

definition flux_body :: "addr \<Rightarrow> addr \<Rightarrow> store \<Rightarrow> int \<times> int \<Rightarrow> store" where
  \<comment> \<open>one round of the loop of lines 50 to 53; \<open>flux += ...\<close> writes into \<open>flux\<close>\<close>
  "flux_body H flux s d =
     (case d of (di, dj) \<Rightarrow>
        let (t, s) = new s (roll (s ! H) di 0);
            (shifted, s) = new s (roll (s ! t) dj 1);
            (dH, s) = new s (grid_sub (s ! H) (s ! shifted));
            (t, s) = new s (clip0 (s ! dH))
        in s[flux := grid_add (s ! flux) (s ! t)])"

definition inflow_body :: "addr \<Rightarrow> addr \<Rightarrow> store \<Rightarrow> int \<times> int \<Rightarrow> store" where
  \<comment> \<open>one round of the loop of lines 58 and 59; \<open>water += ...\<close> writes into \<open>water\<close>\<close>
  "inflow_body moved water s d =
     (case d of (di, dj) \<Rightarrow>
        let (t, s) = new s (roll (s ! moved) (- di) 0);
            (t, s) = new s (roll (s ! t) (- dj) 1);
            (t, s) = new s (scale 0.05 (s ! t))
        in s[water := grid_add (s ! water) (s ! t)])"

definition islice :: "(grid \<Rightarrow> error + grid) \<Rightarrow> addr \<Rightarrow> store \<Rightarrow> store \<times> (error + unit)" where
  \<comment> \<open>a slice update of the array at \<open>a\<close>, in place; an IndexError writes nothing\<close>
  "islice f a s = (case f (s ! a) of Inl e \<Rightarrow> (s, Inl e) | Inr g \<Rightarrow> (s[a := g], Inr ()))"

definition edge_outflow_st :: "addr \<Rightarrow> store \<Rightarrow> store \<times> (error + unit)" where
  \<comment> \<open>line 66\<close>
  "edge_outflow_st water s =
     (case islice (imul_row 0 0.7) water s of
        (s, Inl e) \<Rightarrow> (s, Inl e)
      | (s, Inr _) \<Rightarrow>
     (case islice (imul_row (- 1) 0.7) water s of
        (s, Inl e) \<Rightarrow> (s, Inl e)
      | (s, Inr _) \<Rightarrow>
     (case islice (imul_col 0 0.7) water s of
        (s, Inl e) \<Rightarrow> (s, Inl e)
      | (s, Inr _) \<Rightarrow> islice (imul_col (- 1) 0.7) water s)))"

definition step_st ::
  "addr \<Rightarrow> real \<Rightarrow> real \<Rightarrow> bool \<Rightarrow> addr \<Rightarrow> store \<Rightarrow> store \<times> (error + addr)" where
  \<comment> \<open>the body of the loop, lines 42 to 66; \<open>t\<close> names the arrays the source leaves
      unnamed; the result is the address the name \<open>water\<close> is bound to at the end\<close>
  "step_st dem rain_per_step infiltration_m allow_edge_outflow water s =
     (let s = s[water := add_scalar (s ! water) rain_per_step];
          (H, s) = new s (grid_add (s ! dem) (s ! water));
          (flux, s) = new s (zeros_like (s ! H));
          s = foldl (flux_body H flux) s neighbours;
          (moved, s) = new s (scale 0.2 (s ! flux));
          (t, s) = new s (grid_sub (s ! water) (s ! moved));
          (water, s) = new s (clip0 (s ! t));
          s = foldl (inflow_body moved water) s neighbours;
          (t, s) = new s (sub_scalar (s ! water) infiltration_m);
          (water, s) = new s (clip0 (s ! t))
      in if allow_edge_outflow
         then (case edge_outflow_st water s of
                 (s, Inl e) \<Rightarrow> (s, Inl e)
               | (s, Inr _) \<Rightarrow> (s, Inr water))
         else (s, Inr water))"

fun run_st ::
  "nat \<Rightarrow> addr \<Rightarrow> real \<Rightarrow> real \<Rightarrow> bool \<Rightarrow> addr \<Rightarrow> store \<Rightarrow> store \<times> (error + addr)" where
  "run_st 0 dem rain_per_step infiltration_m allow_edge_outflow water s = (s, Inr water)"
| "run_st (Suc n) dem rain_per_step infiltration_m allow_edge_outflow water s =
     (case step_st dem rain_per_step infiltration_m allow_edge_outflow water s of
        (s, Inl e) \<Rightarrow> (s, Inl e)
      | (s, Inr water) \<Rightarrow> run_st n dem rain_per_step infiltration_m allow_edge_outflow water s)"

definition simulate_st ::
  "addr \<Rightarrow> real \<Rightarrow> int \<Rightarrow> real \<Rightarrow> bool \<Rightarrow> store \<Rightarrow> store \<times> (error + addr)" where
  "simulate_st dem rainfall_mm steps infiltration_m allow_edge_outflow s =
     (let (water, s) = new s (zeros_like (s ! dem))
      in if steps = 0 then (s, Inl ZeroDivisionError)
         else let rain_per_step = (rainfall_mm / 1000) / real_of_int steps
              in run_st (nat steps) dem rain_per_step infiltration_m allow_edge_outflow water s)"

section \<open>Predicates of the statements\<close>

definition keeps :: "store \<Rightarrow> addr set \<Rightarrow> store \<Rightarrow> bool" where
  \<comment> \<open>the store has grown, and every array it held, those at \<open>W\<close> apart, is as it was\<close>
  "keeps s W s' \<longleftrightarrow> length s \<le> length s' \<and> (\<forall>a<length s. a \<notin> W \<longrightarrow> s' ! a = s ! a)"

definition approx_all :: "real \<Rightarrow> real \<Rightarrow> error + grid \<Rightarrow> bool" where
  \<comment> \<open>the run returned a grid, each cell of it within \<open>tol\<close> of \<open>v\<close>\<close>
  "approx_all v tol res =
     (case res of Inl _ \<Rightarrow> False | Inr w \<Rightarrow> list_all (list_all (\<lambda>d. \<bar>d - v\<bar> \<le> tol)) w)"

section \<open>Shapes and cells\<close>

text \<open>
  Every array operation of the step keeps the shape of its argument, and its result at a
  cell is the operation on the cells.
\<close>

lemma is_grid_iff: "is_grid R C g \<longleftrightarrow> length g = R \<and> (\<forall>r<R. length (g ! r) = C)"
  by (auto simp: is_grid_def list_all_length)

lemma is_grid_zeros_like: "is_grid R C g \<Longrightarrow> is_grid R C (zeros_like g)"
  by (simp add: is_grid_iff zeros_like_def)

lemma is_grid_add_scalar: "is_grid R C g \<Longrightarrow> is_grid R C (add_scalar g s)"
  by (simp add: is_grid_iff add_scalar_def)

lemma is_grid_sub_scalar: "is_grid R C g \<Longrightarrow> is_grid R C (sub_scalar g s)"
  by (simp add: is_grid_iff sub_scalar_def)

lemma is_grid_scale: "is_grid R C g \<Longrightarrow> is_grid R C (scale k g)"
  by (simp add: is_grid_iff scale_def)

lemma is_grid_clip0: "is_grid R C g \<Longrightarrow> is_grid R C (clip0 g)"
  by (simp add: is_grid_iff clip0_def)

lemma is_grid_grid_add: "is_grid R C a \<Longrightarrow> is_grid R C b \<Longrightarrow> is_grid R C (grid_add a b)"
  by (simp add: is_grid_iff grid_add_def)

lemma is_grid_grid_sub: "is_grid R C a \<Longrightarrow> is_grid R C b \<Longrightarrow> is_grid R C (grid_sub a b)"
  by (simp add: is_grid_iff grid_sub_def)

lemma length_roll_list: "length (roll_list k xs) = length xs"
  by (simp add: roll_list_def)

lemma nth_roll_list:
  assumes "i < length xs"
  shows "roll_list k xs ! i = xs ! nat ((int i - k) mod int (length xs))"
proof -
  let ?N = "int (length xs)"
  have pos: "0 < ?N" using assms by (cases xs) auto
  have nn: "0 \<le> (- k) mod ?N" using pos by simp
  have "int ((nat ((- k) mod ?N) + i) mod length xs) = ((- k) mod ?N + int i) mod ?N"
    using nn by (simp add: zmod_int)
  also have "\<dots> = (int i - k) mod ?N"
    by (simp add: mod_add_left_eq)
  finally have "(nat ((- k) mod ?N) + i) mod length xs = nat ((int i - k) mod ?N)"
    by linarith
  then show ?thesis
    using assms by (simp add: roll_list_def nth_rotate)
qed

lemma is_grid_roll: "is_grid R C g \<Longrightarrow> is_grid R C (roll g k ax)"
  by (simp add: is_grid_def roll_def roll_list_def list_all_iff)

lemma wrap_less: "0 < n \<Longrightarrow> nat (x mod int n) < n"
  by (simp add: nat_less_iff)

lemma nth_zeros_like: "is_grid R C g \<Longrightarrow> r < R \<Longrightarrow> c < C \<Longrightarrow> zeros_like g ! r ! c = 0"
  by (simp add: is_grid_iff zeros_like_def)

lemma nth_add_scalar:
  "is_grid R C g \<Longrightarrow> r < R \<Longrightarrow> c < C \<Longrightarrow> add_scalar g s ! r ! c = g ! r ! c + s"
  by (simp add: is_grid_iff add_scalar_def)

lemma nth_sub_scalar:
  "is_grid R C g \<Longrightarrow> r < R \<Longrightarrow> c < C \<Longrightarrow> sub_scalar g s ! r ! c = g ! r ! c - s"
  by (simp add: is_grid_iff sub_scalar_def)

lemma nth_scale: "is_grid R C g \<Longrightarrow> r < R \<Longrightarrow> c < C \<Longrightarrow> scale k g ! r ! c = k * g ! r ! c"
  by (simp add: is_grid_iff scale_def)

lemma nth_clip0: "is_grid R C g \<Longrightarrow> r < R \<Longrightarrow> c < C \<Longrightarrow> clip0 g ! r ! c = max 0 (g ! r ! c)"
  by (simp add: is_grid_iff clip0_def)

lemma nth_grid_add:
  "is_grid R C a \<Longrightarrow> is_grid R C b \<Longrightarrow> r < R \<Longrightarrow> c < C \<Longrightarrow>
   grid_add a b ! r ! c = a ! r ! c + b ! r ! c"
  by (simp add: is_grid_iff grid_add_def)

lemma nth_grid_sub:
  "is_grid R C a \<Longrightarrow> is_grid R C b \<Longrightarrow> r < R \<Longrightarrow> c < C \<Longrightarrow>
   grid_sub a b ! r ! c = a ! r ! c - b ! r ! c"
  by (simp add: is_grid_iff grid_sub_def)

lemma nth_roll_rows:
  "is_grid R C g \<Longrightarrow> r < R \<Longrightarrow> roll g k 0 ! r = g ! nat ((int r - k) mod int R)"
  by (simp add: is_grid_iff roll_def nth_roll_list)

lemma nth_roll_cols:
  "is_grid R C g \<Longrightarrow> r < R \<Longrightarrow> c < C \<Longrightarrow>
   roll g k (Suc 0) ! r ! c = g ! r ! nat ((int c - k) mod int C)"
  by (simp add: is_grid_iff roll_def nth_roll_list)

lemma wrap_next: "i < n \<Longrightarrow> nat ((int i - (- 1)) mod int n) = (i + 1) mod n"
  by (simp add: nat_mod_distrib nat_add_distrib)

lemma wrap_prev: "i < n \<Longrightarrow> nat ((int i - 1) mod int n) = (i + n - 1) mod n"
proof -
  assume a: "i < n"
  have "(int i - 1) mod int n = (int i - 1 + int n) mod int n"
    by simp
  also have "int i - 1 + int n = int (i + n - 1)"
    using a by simp
  also have "int (i + n - 1) mod int n = int ((i + n - 1) mod n)"
    by (simp add: zmod_int)
  finally show ?thesis
    by simp
qed

lemma wrap_zero: "i < n \<Longrightarrow> nat (int i mod int n) = i"
  by (simp add: nat_mod_distrib)

lemmas grid_shape = is_grid_zeros_like is_grid_add_scalar is_grid_sub_scalar is_grid_scale
  is_grid_clip0 is_grid_grid_add is_grid_grid_sub is_grid_roll

lemmas grid_nth = nth_zeros_like nth_add_scalar nth_sub_scalar nth_scale nth_clip0
  nth_grid_add nth_grid_sub nth_roll_rows nth_roll_cols

lemma is_grid_flux_of: "is_grid R C H \<Longrightarrow> is_grid R C (flux_of H)"
  by (simp add: flux_of_def neighbours_def grid_shape)

lemma is_grid_inflow: "is_grid R C w \<Longrightarrow> is_grid R C m \<Longrightarrow> is_grid R C (inflow w m)"
  by (simp add: inflow_def neighbours_def grid_shape)

lemma nth_flux_of:
  assumes "is_grid R C H" "r < R" "c < C"
  shows "flux_of H ! r ! c =
           max 0 (H ! r ! c - H ! ((r + 1) mod R) ! c)
         + max 0 (H ! r ! c - H ! ((r + R - 1) mod R) ! c)
         + max 0 (H ! r ! c - H ! r ! ((c + 1) mod C))
         + max 0 (H ! r ! c - H ! r ! ((c + C - 1) mod C))"
  using assms
  by (simp add: flux_of_def neighbours_def grid_shape grid_nth[where R=R and C=C] wrap_less wrap_zero
      wrap_next[simplified] wrap_prev)

lemma nth_inflow:
  assumes "is_grid R C w" "is_grid R C m" "r < R" "c < C"
  shows "inflow w m ! r ! c =
           w ! r ! c
         + 0.05 * m ! ((r + R - 1) mod R) ! c
         + 0.05 * m ! ((r + 1) mod R) ! c
         + 0.05 * m ! r ! ((c + C - 1) mod C)
         + 0.05 * m ! r ! ((c + 1) mod C)"
  using assms
  by (simp add: inflow_def neighbours_def grid_shape grid_nth[where R=R and C=C] wrap_less wrap_zero
      wrap_next[simplified] wrap_prev)

subsection \<open>The border slices\<close>

lemma ncols_grid: "is_grid R C g \<Longrightarrow> 0 < R \<Longrightarrow> ncols g = C"
  by (cases g) (auto simp: is_grid_def ncols_def)

lemma py_index_first: "0 < n \<Longrightarrow> py_index n 0 = Some 0"
  by (simp add: py_index_def)

lemma py_index_last: "0 < n \<Longrightarrow> py_index n (- 1) = Some (n - 1)"
  by (auto simp: py_index_def Let_def)

lemma is_grid_mul_row: "is_grid R C g \<Longrightarrow> is_grid R C (mul_row j k g)"
  by (cases "j < length g") (auto simp: is_grid_iff mul_row_def nth_list_update)

lemma is_grid_mul_col: "is_grid R C g \<Longrightarrow> is_grid R C (mul_col j k g)"
  by (simp add: is_grid_iff mul_col_def)

lemma nth_mul_row:
  "is_grid R C g \<Longrightarrow> r < R \<Longrightarrow> c < C \<Longrightarrow>
   mul_row j k g ! r ! c = g ! r ! c * (if r = j then k else 1)"
  by (auto simp: is_grid_iff mul_row_def nth_list_update)

lemma nth_mul_col:
  "is_grid R C g \<Longrightarrow> r < R \<Longrightarrow> c < C \<Longrightarrow>
   mul_col j k g ! r ! c = g ! r ! c * (if c = j then k else 1)"
  by (auto simp: is_grid_iff mul_col_def nth_list_update)

lemma imul_row_first: "is_grid R C g \<Longrightarrow> 0 < R \<Longrightarrow> imul_row 0 k g = Inr (mul_row 0 k g)"
  by (simp add: imul_row_def is_grid_iff py_index_first)

lemma imul_row_last:
  "is_grid R C g \<Longrightarrow> 0 < R \<Longrightarrow> imul_row (- 1) k g = Inr (mul_row (R - 1) k g)"
  by (simp add: imul_row_def is_grid_iff py_index_last)

lemma imul_col_first:
  "is_grid R C g \<Longrightarrow> 0 < R \<Longrightarrow> 0 < C \<Longrightarrow> imul_col 0 k g = Inr (mul_col 0 k g)"
  by (simp add: imul_col_def ncols_grid py_index_first)

lemma imul_col_last:
  "is_grid R C g \<Longrightarrow> 0 < R \<Longrightarrow> 0 < C \<Longrightarrow> imul_col (- 1) k g = Inr (mul_col (C - 1) k g)"
  by (simp add: imul_col_def ncols_grid py_index_last)

lemma edge_outflow_eq:
  assumes "is_grid R C w" "0 < R" "0 < C"
  shows "edge_outflow w =
    Inr (mul_col (C - 1) 0.7 (mul_col 0 0.7 (mul_row (R - 1) 0.7 (mul_row 0 0.7 w))))"
  using assms
  by (simp add: edge_outflow_def bind_def is_grid_mul_row is_grid_mul_col
      imul_row_first[where R=R and C=C] imul_row_last[where R=R and C=C]
      imul_col_first[where R=R and C=C] imul_col_last[where R=R and C=C])

lemma edge_outflow_nth:
  assumes "is_grid R C w" "0 < R" "0 < C"
  shows "\<exists>w'. edge_outflow w = Inr w' \<and> is_grid R C w' \<and>
    (\<forall>r<R. \<forall>c<C. w' ! r ! c =
       w ! r ! c * (if r = 0 then 0.7 else 1) * (if r = R - 1 then 0.7 else 1)
                 * (if c = 0 then 0.7 else 1) * (if c = C - 1 then 0.7 else 1))"
  using assms
  by (simp add: edge_outflow_eq[where R=R and C=C] is_grid_mul_row is_grid_mul_col
      nth_mul_row[where R=R and C=C] nth_mul_col[where R=R and C=C])

lemma edge_outflow_no_rows: "edge_outflow [] = Inl IndexError"
  by (simp add: edge_outflow_def bind_def imul_row_def py_index_def)

lemma edge_outflow_no_cols:
  assumes "is_grid R 0 w"
  shows "edge_outflow w = Inl IndexError"
proof (cases "R = 0")
  case True
  with assms have "w = []" by (simp add: is_grid_def)
  then show ?thesis by (simp add: edge_outflow_no_rows)
next
  case False
  then have "0 < R" by simp
  with assms show ?thesis
    by (simp add: edge_outflow_def bind_def is_grid_mul_row
        imul_row_first[where R=R and C=0] imul_row_last[where R=R and C=0]
        imul_col_def ncols_grid[where R=R and C=0] py_index_def)
qed

subsection \<open>Shape and sign through the loop\<close>

lemma nonneg_clip0: "nonneg (clip0 g)"
  by (simp add: nonneg_def clip0_def list_all_iff)

lemma nonneg_zeros_like: "nonneg (zeros_like g)"
  by (simp add: nonneg_def zeros_like_def list_all_iff)

lemma nonneg_mul_row: "nonneg g \<Longrightarrow> 0 \<le> k \<Longrightarrow> nonneg (mul_row j k g)"
  by (cases "j < length g")
    (auto simp: nonneg_def mul_row_def list_all_length nth_list_update)

lemma nonneg_mul_col: "nonneg g \<Longrightarrow> 0 \<le> k \<Longrightarrow> nonneg (mul_col j k g)"
proof -
  have row: "list_all (\<lambda>d. 0 \<le> d) (row[j := row ! j * k])"
    if "list_all (\<lambda>d. 0 \<le> d) row" "0 \<le> k" for row :: "real list"
    using that by (cases "j < length row") (auto simp: list_all_length nth_list_update)
  assume "nonneg g" "0 \<le> k"
  then show ?thesis
    by (auto simp: nonneg_def mul_col_def list_all_iff intro: row[unfolded list_all_iff, rule_format])
qed

lemma nonneg_imul_row: "nonneg g \<Longrightarrow> 0 \<le> k \<Longrightarrow> imul_row i k g = Inr g' \<Longrightarrow> nonneg g'"
  by (auto simp: imul_row_def nonneg_mul_row split: option.splits)

lemma nonneg_imul_col: "nonneg g \<Longrightarrow> 0 \<le> k \<Longrightarrow> imul_col i k g = Inr g' \<Longrightarrow> nonneg g'"
  by (auto simp: imul_col_def nonneg_mul_col split: option.splits)

lemma bind_Inr: "bind m f = Inr y \<longleftrightarrow> (\<exists>x. m = Inr x \<and> f x = Inr y)"
  by (cases m) (simp_all add: bind_def)

lemma nonneg_edge_outflow:
  assumes "nonneg w" "edge_outflow w = Inr w'"
  shows "nonneg w'"
proof -
  from assms(2) obtain a b c where
    a: "imul_row 0 0.7 w = Inr a" and b: "imul_row (- 1) 0.7 a = Inr b" and
    c: "imul_col 0 0.7 b = Inr c" and d: "imul_col (- 1) 0.7 c = Inr w'"
    by (auto simp: edge_outflow_def bind_Inr)
  have "nonneg a" by (rule nonneg_imul_row[OF assms(1) _ a]) simp
  then have "nonneg b" by (rule nonneg_imul_row[OF _ _ b]) simp
  then have "nonneg c" by (rule nonneg_imul_col[OF _ _ c]) simp
  then show ?thesis by (rule nonneg_imul_col[OF _ _ d]) simp
qed

lemma step_nonneg:
  "step dem rain_per_step infiltration_m allow_edge_outflow water = Inr w' \<Longrightarrow> nonneg w'"
  by (auto simp: step_def Let_def nonneg_clip0 split: if_splits
      intro: nonneg_edge_outflow[OF nonneg_clip0])

lemma step_returns:
  assumes "is_grid R C dem" "is_grid R C water" "allow_edge_outflow \<longrightarrow> 0 < R \<and> 0 < C"
  shows "\<exists>w'. step dem rain_per_step infiltration_m allow_edge_outflow water = Inr w'
           \<and> is_grid R C w'"
proof -
  define w where "w = clip0 (sub_scalar (inflow
      (clip0 (grid_sub (add_scalar water rain_per_step)
         (scale 0.2 (flux_of (grid_add dem (add_scalar water rain_per_step))))))
      (scale 0.2 (flux_of (grid_add dem (add_scalar water rain_per_step))))) infiltration_m)"
  have g: "is_grid R C w"
    using assms(1,2) unfolding w_def
    by (intro grid_shape is_grid_inflow is_grid_flux_of)
  have s: "step dem rain_per_step infiltration_m allow_edge_outflow water =
      (if allow_edge_outflow then edge_outflow w else Inr w)"
    by (simp add: step_def w_def Let_def)
  show ?thesis
  proof (cases allow_edge_outflow)
    case True
    with assms(3) have "0 < R" "0 < C" by simp_all
    from edge_outflow_nth[OF g this] s True show ?thesis by auto
  next
    case False
    with s g show ?thesis by simp
  qed
qed

lemma run_nonneg:
  "run n dem rain_per_step infiltration_m allow_edge_outflow water = Inr w' \<Longrightarrow>
   nonneg water \<Longrightarrow> nonneg w'"
proof (induction n arbitrary: water)
  case 0
  then show ?case by simp
next
  case (Suc n)
  from Suc.prems(1) obtain w1 where
    s: "step dem rain_per_step infiltration_m allow_edge_outflow water = Inr w1" and
    r: "run n dem rain_per_step infiltration_m allow_edge_outflow w1 = Inr w'"
    by (auto simp: bind_Inr)
  from s have "nonneg w1" by (rule step_nonneg)
  with r show ?case by (rule Suc.IH)
qed

lemma run_returns:
  assumes "is_grid R C dem" "allow_edge_outflow \<longrightarrow> 0 < R \<and> 0 < C"
  shows "is_grid R C water \<Longrightarrow>
    \<exists>w'. run n dem rain_per_step infiltration_m allow_edge_outflow water = Inr w'
           \<and> is_grid R C w'"
proof (induction n arbitrary: water)
  case 0
  then show ?case by simp
next
  case (Suc n)
  from step_returns[OF assms(1) Suc.prems assms(2)] obtain w1 where
    s: "step dem rain_per_step infiltration_m allow_edge_outflow water = Inr w1" and
    g: "is_grid R C w1"
    by blast
  from Suc.IH[OF g] s show ?case by (simp add: bind_def)
qed

subsection \<open>Flat terrain\<close>

lemma rotate_replicate: "rotate m (replicate n x) = replicate n x"
  by (induction m) simp_all

lemma roll_list_replicate: "roll_list k (replicate n x) = replicate n x"
  by (simp add: roll_list_def rotate_replicate)

lemma roll_replicate: "roll (replicate R (replicate C x)) k ax = replicate R (replicate C x)"
  by (simp add: roll_def roll_list_replicate)

lemma map2_replicate:
  "map2 f (replicate n x) (replicate n y) = replicate n (f x y)"
  by (simp add: zip_replicate)

lemma grid_add_replicate:
  "grid_add (replicate R (replicate C x)) (replicate R (replicate C y)) =
   replicate R (replicate C (x + y))"
  by (simp add: grid_add_def map2_replicate)

lemma grid_sub_replicate:
  "grid_sub (replicate R (replicate C x)) (replicate R (replicate C y)) =
   replicate R (replicate C (x - y))"
  by (simp add: grid_sub_def map2_replicate)

lemma flux_of_replicate:
  "flux_of (replicate R (replicate C x)) = replicate R (replicate C 0)"
  by (simp add: flux_of_def neighbours_def roll_replicate grid_sub_replicate clip0_def
      zeros_like_def grid_add_replicate)

lemma step_flat:
  "step (replicate R (replicate C e)) rain_per_step infiltration_m False
     (replicate R (replicate C d)) =
   Inr (replicate R (replicate C (max 0 (max 0 (d + rain_per_step) - infiltration_m))))"
  by (simp add: step_def Let_def add_scalar_def grid_add_replicate flux_of_replicate scale_def
      grid_sub_replicate clip0_def inflow_def neighbours_def roll_replicate sub_scalar_def)

lemma run_flat:
  "0 \<le> d \<Longrightarrow> 0 \<le> p \<Longrightarrow>
   run n (replicate R (replicate C e)) p 0 False (replicate R (replicate C d)) =
   Inr (replicate R (replicate C (d + of_nat n * p)))"
proof (induction n arbitrary: d)
  case 0
  then show ?case by simp
next
  case (Suc n)
  have "0 \<le> d + p" using Suc.prems by simp
  from Suc.IH[OF this Suc.prems(2)] Suc.prems show ?case
    by (simp add: step_flat bind_def algebra_simps)
qed

section \<open>The store keeps what the run does not own\<close>

lemma keeps_refl: "keeps s W s"
  by (simp add: keeps_def)

lemma keeps_trans: "keeps s W s' \<Longrightarrow> keeps s' W s'' \<Longrightarrow> keeps s W s''"
  by (auto simp: keeps_def)

lemma keeps_new: "keeps s W (snd (new s g))"
  by (simp add: keeps_def new_def nth_append)

lemma keeps_update: "a \<in> W \<Longrightarrow> keeps s W (s[a := g])"
proof -
  assume a: "a \<in> W"
  have "s[a := g] ! b = s ! b" if "b \<notin> W" for b
  proof -
    from a that have "a \<noteq> b" by blast
    then show ?thesis by simp
  qed
  then show ?thesis by (simp add: keeps_def)
qed

lemma keeps_fresh:
  "keeps s W s' \<Longrightarrow> keeps s' W' s'' \<Longrightarrow> (\<forall>a\<in>W'. a \<in> W \<or> length s \<le> a) \<Longrightarrow>
   keeps s W s''"
  by (fastforce simp: keeps_def)

lemma flux_body_spec:
  assumes "H < length s" "flux < length s" "H \<noteq> flux"
  shows "keeps s {flux} (flux_body H flux s d)
       \<and> flux_body H flux s d ! flux =
           (case d of (di, dj) \<Rightarrow>
              grid_add (s ! flux) (clip0 (grid_sub (s ! H) (roll (roll (s ! H) di 0) dj 1))))"
  using assms
  by (cases d) (simp add: flux_body_def new_def keeps_def nth_append Let_def)

lemma flux_loop_spec:
  assumes "H \<noteq> flux"
  shows "H < length s \<Longrightarrow> flux < length s \<Longrightarrow>
    keeps s {flux} (foldl (flux_body H flux) s ns)
  \<and> foldl (flux_body H flux) s ns ! flux =
      foldl (\<lambda>flux (di, dj).
              let shifted = roll (roll (s ! H) di 0) dj 1;
                  dH = grid_sub (s ! H) shifted
              in grid_add flux (clip0 dH)) (s ! flux) ns"
proof (induction ns arbitrary: s)
  case Nil
  then show ?case by (simp add: keeps_refl)
next
  case (Cons d ns)
  let ?s1 = "flux_body H flux s d"
  from flux_body_spec[OF Cons.prems assms, of d] have
    k: "keeps s {flux} ?s1" and
    v: "?s1 ! flux = (case d of (di, dj) \<Rightarrow>
              grid_add (s ! flux) (clip0 (grid_sub (s ! H) (roll (roll (s ! H) di 0) dj 1))))"
    by simp_all
  from k Cons.prems assms have l: "H < length ?s1" "flux < length ?s1" and h: "?s1 ! H = s ! H"
    by (auto simp: keeps_def)
  from Cons.IH[OF l] k v h show ?case
    by (auto simp: Let_def intro: keeps_trans split: prod.splits)
qed

lemma inflow_body_spec:
  assumes "moved < length s" "water < length s" "moved \<noteq> water"
  shows "keeps s {water} (inflow_body moved water s d)
       \<and> inflow_body moved water s d ! water =
           (case d of (di, dj) \<Rightarrow>
              grid_add (s ! water) (scale 0.05 (roll (roll (s ! moved) (- di) 0) (- dj) 1)))"
  using assms
  by (cases d) (simp add: inflow_body_def new_def keeps_def nth_append Let_def)

lemma inflow_loop_spec:
  assumes "moved \<noteq> water"
  shows "moved < length s \<Longrightarrow> water < length s \<Longrightarrow>
    keeps s {water} (foldl (inflow_body moved water) s ns)
  \<and> foldl (inflow_body moved water) s ns ! water =
      foldl (\<lambda>water (di, dj).
              grid_add water (scale 0.05 (roll (roll (s ! moved) (- di) 0) (- dj) 1)))
        (s ! water) ns"
proof (induction ns arbitrary: s)
  case Nil
  then show ?case by (simp add: keeps_refl)
next
  case (Cons d ns)
  let ?s1 = "inflow_body moved water s d"
  from inflow_body_spec[OF Cons.prems assms, of d] have
    k: "keeps s {water} ?s1" and
    v: "?s1 ! water = (case d of (di, dj) \<Rightarrow>
              grid_add (s ! water) (scale 0.05 (roll (roll (s ! moved) (- di) 0) (- dj) 1)))"
    by simp_all
  from k Cons.prems assms have l: "moved < length ?s1" "water < length ?s1"
    and h: "?s1 ! moved = s ! moved"
    by (auto simp: keeps_def)
  from Cons.IH[OF l] k v h show ?case
    by (auto simp: Let_def intro: keeps_trans split: prod.splits)
qed

lemma islice_spec:
  assumes "a < length s"
  shows "case islice f a s of
           (s', Inl e) \<Rightarrow> s' = s \<and> f (s ! a) = Inl e
         | (s', Inr _) \<Rightarrow> length s' = length s \<and> keeps s {a} s' \<and> f (s ! a) = Inr (s' ! a)"
  using assms
  by (auto simp: islice_def keeps_update split: sum.splits)

lemma edge_outflow_st_spec:
  assumes "water < length s"
  shows "case edge_outflow_st water s of
           (s', Inl e) \<Rightarrow> keeps s {water} s' \<and> edge_outflow (s ! water) = Inl e
         | (s', Inr _) \<Rightarrow> keeps s {water} s' \<and> edge_outflow (s ! water) = Inr (s' ! water)"
proof -
  obtain s1 r1 where e1: "islice (imul_row 0 0.7) water s = (s1, r1)" by force
  obtain s2 r2 where e2: "islice (imul_row (- 1) 0.7) water s1 = (s2, r2)" by force
  obtain s3 r3 where e3: "islice (imul_col 0 0.7) water s2 = (s3, r3)" by force
  obtain s4 r4 where e4: "islice (imul_col (- 1) 0.7) water s3 = (s4, r4)" by force
  show ?thesis
  proof (cases r1)
    case (Inl e)
    with islice_spec[OF assms, of "imul_row 0 0.7"] e1 show ?thesis
      by (simp add: edge_outflow_st_def edge_outflow_def bind_def keeps_refl)
  next
    case a: (Inr u1)
    with islice_spec[OF assms, of "imul_row 0 0.7"] e1 have
      l1: "length s1 = length s" and k1: "keeps s {water} s1" and
      v1: "imul_row 0 0.7 (s ! water) = Inr (s1 ! water)"
      by simp_all
    from l1 assms have w1: "water < length s1" by simp
    show ?thesis
    proof (cases r2)
      case (Inl e)
      with islice_spec[OF w1, of "imul_row (- 1) 0.7"] e1 e2 a k1 v1 show ?thesis
        by (simp add: edge_outflow_st_def edge_outflow_def bind_def)
    next
      case b: (Inr u2)
      with islice_spec[OF w1, of "imul_row (- 1) 0.7"] e2 have
        l2: "length s2 = length s1" and k2: "keeps s1 {water} s2" and
        v2: "imul_row (- 1) 0.7 (s1 ! water) = Inr (s2 ! water)"
        by simp_all
      from l2 w1 have w2: "water < length s2" by simp
      from k1 k2 have k12: "keeps s {water} s2" by (rule keeps_trans)
      show ?thesis
      proof (cases r3)
        case (Inl e)
        with islice_spec[OF w2, of "imul_col 0 0.7"] e1 e2 e3 a b k12 v1 v2 show ?thesis
          by (simp add: edge_outflow_st_def edge_outflow_def bind_def)
      next
        case c: (Inr u3)
        with islice_spec[OF w2, of "imul_col 0 0.7"] e3 have
          l3: "length s3 = length s2" and k3: "keeps s2 {water} s3" and
          v3: "imul_col 0 0.7 (s2 ! water) = Inr (s3 ! water)"
          by simp_all
        from l3 w2 have w3: "water < length s3" by simp
        from k12 k3 have k13: "keeps s {water} s3" by (rule keeps_trans)
        show ?thesis
        proof (cases r4)
          case (Inl e)
          with islice_spec[OF w3, of "imul_col (- 1) 0.7"] e1 e2 e3 e4 a b c k13 v1 v2 v3
          show ?thesis
            by (simp add: edge_outflow_st_def edge_outflow_def bind_def)
        next
          case d: (Inr u4)
          with islice_spec[OF w3, of "imul_col (- 1) 0.7"] e4 have
            k4: "keeps s3 {water} s4" and
            v4: "imul_col (- 1) 0.7 (s3 ! water) = Inr (s4 ! water)"
            by simp_all
          from k13 k4 have "keeps s {water} s4" by (rule keeps_trans)
          with e1 e2 e3 e4 a b c d v1 v2 v3 v4 show ?thesis
            by (simp add: edge_outflow_st_def edge_outflow_def bind_def)
        qed
      qed
    qed
  qed
qed

lemma step_st_spec:
  assumes "dem < length s" "water < length s" "dem \<noteq> water"
  shows "case step_st dem rain_per_step infiltration_m allow_edge_outflow water s of
           (s', Inl e) \<Rightarrow> keeps s {water} s'
              \<and> step (s ! dem) rain_per_step infiltration_m allow_edge_outflow (s ! water) = Inl e
         | (s', Inr w') \<Rightarrow> keeps s {water} s' \<and> length s \<le> w' \<and> w' < length s'
              \<and> step (s ! dem) rain_per_step infiltration_m allow_edge_outflow (s ! water)
                  = Inr (s' ! w')"
proof -
  define w1 where "w1 = add_scalar (s ! water) rain_per_step"
  define Hv where "Hv = grid_add (s ! dem) w1"
  define mv where "mv = scale 0.2 (flux_of Hv)"
  define w2 where "w2 = clip0 (grid_sub w1 mv)"
  define w3 where "w3 = clip0 (sub_scalar (inflow w2 mv) infiltration_m)"
  define n where "n = length s"
  define s1 where "s1 = s[water := add_scalar (s ! water) rain_per_step]"
  define s2 where "s2 = s1 @ [Hv]"
  define s3 where "s3 = s2 @ [zeros_like Hv]"
  define s4 where "s4 = foldl (flux_body n (Suc n)) s3 neighbours"
  define moved where "moved = length s4"
  define s5 where "s5 = s4 @ [mv]"
  define s6 where "s6 = s5 @ [grid_sub w1 mv]"
  define s7 where "s7 = s6 @ [w2]"
  define s8 where "s8 = foldl (inflow_body moved (Suc (Suc moved))) s7 neighbours"
  define water' where "water' = Suc (length s8)"
  define s9 where "s9 = s8 @ [sub_scalar (inflow w2 mv) infiltration_m]"
  define s10 where "s10 = s9 @ [w3]"
  have k1: "keeps s {water} s1" and l1: "length s1 = n"
    and d1: "s1 ! dem = s ! dem" and v1: "s1 ! water = w1"
    using assms by (simp_all add: s1_def w1_def n_def keeps_update)
  have e2: "new s1 (grid_add (s1 ! dem) (s1 ! water)) = (n, s2)"
    by (simp add: new_def l1 d1 v1 s2_def Hv_def)
  have l2: "length s2 = Suc n" and v2: "s2 ! n = Hv"
    using l1 by (simp_all add: s2_def nth_append)
  have e3: "new s2 (zeros_like (s2 ! n)) = (Suc n, s3)"
    by (simp add: new_def l2 v2 s3_def)
  have l3: "length s3 = n + 2" and v3: "s3 ! water = w1" "s3 ! n = Hv"
      "s3 ! Suc n = zeros_like Hv"
    and k3: "keeps s1 {} s3"
    using assms l1 v1 by (simp_all add: s3_def s2_def nth_append n_def keeps_def)
  have "keeps s3 {Suc n} s4 \<and> s4 ! Suc n = flux_of (s3 ! n)"
    unfolding s4_def flux_of_def v3
    using flux_loop_spec[of n "Suc n" s3 neighbours] l3 v3 by simp
  then have k4: "keeps s3 {Suc n} s4" and f4: "s4 ! Suc n = flux_of Hv"
    by (simp_all add: v3)
  from k4 l3 v3 assms have l4: "n + 2 \<le> length s4" and v4: "s4 ! water = w1"
    by (auto simp: keeps_def n_def)
  have e5: "new s4 (scale 0.2 (s4 ! Suc n)) = (moved, s5)"
    by (simp add: new_def f4 moved_def s5_def mv_def)
  have wl: "water < moved"
    using l4 assms by (simp add: moved_def n_def)
  have l5: "length s5 = Suc moved" and v5: "s5 ! water = w1" "s5 ! moved = mv"
    using v4 wl by (simp_all add: s5_def moved_def nth_append)
  have e6: "new s5 (grid_sub (s5 ! water) (s5 ! moved)) = (Suc moved, s6)"
    by (simp add: new_def l5 v5 s6_def)
  have l6: "length s6 = Suc (Suc moved)" and v6: "s6 ! Suc moved = grid_sub w1 mv"
    using l5 by (simp_all add: s6_def nth_append)
  have e7: "new s6 (clip0 (s6 ! Suc moved)) = (Suc (Suc moved), s7)"
    by (simp add: new_def l6 v6 s7_def w2_def)
  have l7: "length s7 = Suc (Suc (Suc moved))" and v7: "s7 ! moved = mv" "s7 ! Suc (Suc moved) = w2"
    and k7: "keeps s4 {} s7"
    by (simp_all add: s7_def s6_def s5_def moved_def nth_append keeps_def)
  have "keeps s7 {Suc (Suc moved)} s8
      \<and> s8 ! Suc (Suc moved) = inflow (s7 ! Suc (Suc moved)) (s7 ! moved)"
    unfolding s8_def inflow_def
    using inflow_loop_spec[of moved "Suc (Suc moved)" s7 neighbours] l7 by simp
  then have k8: "keeps s7 {Suc (Suc moved)} s8" and v8: "s8 ! Suc (Suc moved) = inflow w2 mv"
    by (simp_all add: v7)
  have l8: "Suc (Suc (Suc moved)) \<le> length s8"
    using k8 l7 by (simp add: keeps_def)
  have e9: "new s8 (sub_scalar (s8 ! Suc (Suc moved)) infiltration_m) = (length s8, s9)"
    by (simp add: new_def v8 s9_def)
  have e10: "new s9 (clip0 (s9 ! length s8)) = (water', s10)"
    by (simp add: new_def s9_def s10_def water'_def w3_def)
  have l10: "length s10 = Suc water'" and v10: "s10 ! water' = w3" and k10: "keeps s8 {} s10"
    by (simp_all add: s10_def s9_def water'_def nth_append keeps_def)
  have ka: "keeps s {water} s3"
    using k1 k3 by (rule keeps_fresh) simp
  have kb: "keeps s {water} s4"
    using ka k4 by (rule keeps_fresh) (simp add: n_def)
  have kc: "keeps s {water} s7"
    using kb k7 by (rule keeps_fresh) simp
  have nm: "n \<le> moved"
    using l4 by (simp add: moved_def)
  have kd: "keeps s {water} s8"
    using keeps_fresh[OF kc k8] nm by (simp add: n_def)
  have ke: "keeps s {water} s10"
    using kd k10 by (rule keeps_fresh) simp
  have nw: "n \<le> water'"
    using l8 nm by (simp add: water'_def)
  have st: "step_st dem rain_per_step infiltration_m allow_edge_outflow water s =
      (if allow_edge_outflow
         then (case edge_outflow_st water' s10 of
                 (s, Inl e) \<Rightarrow> (s, Inl e)
               | (s, Inr _) \<Rightarrow> (s, Inr water'))
         else (s10, Inr water'))"
    by (simp only: step_st_def Let_def s1_def[symmetric] e2 e3 s4_def[symmetric] e5 e6 e7
        s8_def[symmetric] e9 e10 prod.case)
  have pure: "step (s ! dem) rain_per_step infiltration_m allow_edge_outflow (s ! water) =
      (if allow_edge_outflow then edge_outflow w3 else Inr w3)"
    by (simp add: step_def Let_def w3_def w2_def mv_def Hv_def w1_def)
  show ?thesis
  proof (cases allow_edge_outflow)
    case False
    with st pure ke nw l10 v10 show ?thesis
      by (simp add: n_def)
  next
    case True
    have wl': "water' < length s10" using l10 by simp
    obtain s11 r where e: "edge_outflow_st water' s10 = (s11, r)" by force
    from wl' nw have fresh: "\<forall>a\<in>{water'}. a \<in> {water} \<or> length s \<le> a"
      by (simp add: n_def)
    show ?thesis
    proof (cases r)
      case (Inl err)
      with edge_outflow_st_spec[OF wl'] e have
        k: "keeps s10 {water'} s11" and v: "edge_outflow w3 = Inl err"
        by (simp_all add: v10)
      from keeps_fresh[OF ke k fresh] v st pure True e Inl show ?thesis
        by simp
    next
      case (Inr u)
      with edge_outflow_st_spec[OF wl'] e have
        k: "keeps s10 {water'} s11" and v: "edge_outflow w3 = Inr (s11 ! water')"
        by (simp_all add: v10)
      from k wl' have "water' < length s11" by (simp add: keeps_def)
      with keeps_fresh[OF ke k fresh] v st pure True e Inr nw show ?thesis
        by (simp add: n_def)
    qed
  qed
qed

lemma run_st_spec:
  assumes "dem < length s" "water < length s" "dem \<noteq> water"
  shows "case run_st k dem rain_per_step infiltration_m allow_edge_outflow water s of
           (s', Inl e) \<Rightarrow> keeps s {water} s'
              \<and> run k (s ! dem) rain_per_step infiltration_m allow_edge_outflow (s ! water) = Inl e
         | (s', Inr w') \<Rightarrow> keeps s {water} s' \<and> (w' = water \<or> length s \<le> w') \<and> w' < length s'
              \<and> run k (s ! dem) rain_per_step infiltration_m allow_edge_outflow (s ! water)
                  = Inr (s' ! w')"
  using assms
proof (induction k arbitrary: s water)
  case 0
  then show ?case by (simp add: keeps_refl)
next
  case (Suc k)
  obtain s1 r1 where
    e1: "step_st dem rain_per_step infiltration_m allow_edge_outflow water s = (s1, r1)"
    by force
  show ?case
  proof (cases r1)
    case (Inl err)
    with step_st_spec[OF Suc.prems, of rain_per_step infiltration_m allow_edge_outflow] e1
    show ?thesis by (simp add: bind_def)
  next
    case (Inr w1)
    with step_st_spec[OF Suc.prems, of rain_per_step infiltration_m allow_edge_outflow] e1
    have k1: "keeps s {water} s1" and f1: "length s \<le> w1" and l1: "w1 < length s1"
      and v1: "step (s ! dem) rain_per_step infiltration_m allow_edge_outflow (s ! water)
                = Inr (s1 ! w1)"
      by simp_all
    from k1 Suc.prems have d1: "dem < length s1" "s1 ! dem = s ! dem"
      by (simp_all add: keeps_def)
    from f1 Suc.prems have ne: "dem \<noteq> w1" by simp
    from f1 have fresh: "\<forall>a\<in>{w1}. a \<in> {water} \<or> length s \<le> a" by simp
    obtain s2 r2 where
      e2: "run_st k dem rain_per_step infiltration_m allow_edge_outflow w1 s1 = (s2, r2)"
      by force
    show ?thesis
    proof (cases r2)
      case (Inl err)
      with Suc.IH[OF d1(1) l1 ne] e2 have
        k2: "keeps s1 {w1} s2" and
        v2: "run k (s1 ! dem) rain_per_step infiltration_m allow_edge_outflow (s1 ! w1) = Inl err"
        by simp_all
      from keeps_fresh[OF k1 k2 fresh] v2 v1 d1 e1 e2 Inr Inl show ?thesis
        by (simp add: bind_def)
    next
      case b: (Inr w2)
      with Suc.IH[OF d1(1) l1 ne] e2 have
        k2: "keeps s1 {w1} s2" and f2: "w2 = w1 \<or> length s1 \<le> w2" and l2: "w2 < length s2" and
        v2: "run k (s1 ! dem) rain_per_step infiltration_m allow_edge_outflow (s1 ! w1)
              = Inr (s2 ! w2)"
        by simp_all
      from f2 f1 k1 have "length s \<le> w2" by (auto simp: keeps_def)
      with keeps_fresh[OF k1 k2 fresh] v2 v1 d1 e1 e2 Inr b l2 show ?thesis
        by (simp add: bind_def)
    qed
  qed
qed

section \<open>The claims\<close>

lemmas eval_defs = simulate_def step_def flux_of_def inflow_def edge_outflow_def neighbours_def
  roll_def roll_list_def grid_add_def grid_sub_def add_scalar_def sub_scalar_def scale_def
  clip0_def zeros_like_def bind_def imul_row_def imul_col_def mul_row_def mul_col_def
  py_index_def ncols_def total_depth_def is_grid_def nonneg_def Let_def eval_nat_numeral

subsection \<open>Conservation, the dry fixed point and monotone loss\<close>

text \<open>
  Claim C1: with no infiltration and no edge outflow, the total depth after a step is the
  total before plus the rain of that step; a one-step run with 50 mm of rain ends with a
  total of 0.05 times the number of cells.

  The code does not do that. On the 3 by 3 grid with a hill of 1 m in the middle, the hill
  holds 0.05 m after the rain, \<open>moved\<close> is 0.8 m there, the hill is clipped to 0 and each
  of its four neighbours receives \<open>0.05 * 0.8\<close>: the total is 0.56 and not 0.45, water
  has appeared. With a hill of 1 cm nothing is clipped, the hill loses 0.008 m and the
  neighbours receive a fifth of it: the total is 0.4436, water has gone.
\<close>

theorem redistribution_changes_total:
  "simulate [[0, 0, 0], [0, 1, 0], [0, 0, 0]] 50 1 0 False =
     Inr [[1 / 20, 9 / 100, 1 / 20], [9 / 100, 0, 9 / 100], [1 / 20, 9 / 100, 1 / 20]]
   \<and> step [[0, 0, 0], [0, 1, 0], [0, 0, 0]] (50 / 1000 / 1) 0 False
        [[0, 0, 0], [0, 0, 0], [0, 0, 0]] =
     Inr [[1 / 20, 9 / 100, 1 / 20], [9 / 100, 0, 9 / 100], [1 / 20, 9 / 100, 1 / 20]]
   \<and> total_depth [[1 / 20, 9 / 100, 1 / 20], [9 / 100, 0, 9 / 100], [1 / 20, 9 / 100, 1 / 20]]
        = 56 / 100
   \<and> total_depth [[0, 0, 0], [0, 0, 0], [0, 0, 0]] + (50 / 1000 / 1) * (3 * 3) = 45 / 100
   \<and> simulate [[0, 0, 0], [0, 1 / 100, 0], [0, 0, 0]] 50 1 0 False =
     Inr [[1 / 20, 504 / 10000, 1 / 20], [504 / 10000, 42 / 1000, 504 / 10000],
          [1 / 20, 504 / 10000, 1 / 20]]
   \<and> total_depth [[1 / 20, 504 / 10000, 1 / 20], [504 / 10000, 42 / 1000, 504 / 10000],
          [1 / 20, 504 / 10000, 1 / 20]] = 4436 / 10000"
  by (simp add: eval_defs)

text \<open>
  Claim C2: with no rain and no infiltration the all-zero depth grid stays all-zero, on
  every terrain.

  On the same hill the code hands 0.04 m to each neighbour of the hill in the first step,
  though no cell held any water.
\<close>

theorem dry_slope_gains_water:
  "simulate [[0, 0, 0], [0, 1, 0], [0, 0, 0]] 0 1 0 False =
     Inr [[0, 1 / 25, 0], [1 / 25, 0, 1 / 25], [0, 1 / 25, 0]]
   \<and> step [[0, 0, 0], [0, 1, 0], [0, 0, 0]] 0 0 False
        (zeros_like [[0, 0, 0], [0, 1, 0], [0, 0, 0]]) =
     Inr [[0, 1 / 25, 0], [1 / 25, 0, 1 / 25], [0, 1 / 25, 0]]"
  by (simp add: eval_defs)

text \<open>
  Claim C3: with no rain and a positive infiltration the total depth does not grow in a
  step.

  On the same hill, from the dry grid and with an infiltration of 1 mm, one step takes the
  total from 0 to 0.156.
\<close>

theorem infiltration_step_gains_water:
  "step [[0, 0, 0], [0, 1, 0], [0, 0, 0]] 0 (1 / 1000) False
        [[0, 0, 0], [0, 0, 0], [0, 0, 0]] =
     Inr [[0, 39 / 1000, 0], [39 / 1000, 0, 39 / 1000], [0, 39 / 1000, 0]]
   \<and> total_depth [[0, 0, 0], [0, 0, 0], [0, 0, 0]] = 0
   \<and> total_depth [[0, 39 / 1000, 0], [39 / 1000, 0, 39 / 1000], [0, 39 / 1000, 0]]
        = 156 / 1000"
  by (simp add: eval_defs)

subsection \<open>Edge outflow\<close>






subsection \<open>Depth is never negative\<close>

text \<open>
  Claim C6: from the all-zero grid the depth of every cell is at least zero after every
  step and in the returned grid. A run of \<open>simulate\<close> with a positive step count is
  \<open>run\<close> from \<open>zeros_like dem\<close>, and \<open>run k\<close> is the state after \<open>k\<close> steps: on a
  terrain with at least one row and one column every such state exists, has the shape of
  the terrain and has no negative cell. The clip after the infiltration gives this for
  any sign of the rainfall and of the infiltration, so the statement does not assume them
  non-negative.
\<close>

theorem depth_never_negative:
  assumes "is_grid R C dem" "0 < R" "0 < C" "0 < steps"
  shows "simulate dem rainfall_mm steps infiltration_m allow_edge_outflow =
           run (nat steps) dem (rainfall_mm / 1000 / real_of_int steps) infiltration_m
             allow_edge_outflow (zeros_like dem)
       \<and> (\<forall>k. \<exists>w. run k dem (rainfall_mm / 1000 / real_of_int steps) infiltration_m
                     allow_edge_outflow (zeros_like dem) = Inr w
                 \<and> is_grid R C w \<and> nonneg w)"
proof -
  let ?p = "rainfall_mm / 1000 / real_of_int steps"
  have z: "is_grid R C (zeros_like dem)"
    using assms(1) by (rule is_grid_zeros_like)
  have e: "allow_edge_outflow \<longrightarrow> 0 < R \<and> 0 < C"
    using assms(2,3) by simp
  have "\<exists>w. run k dem ?p infiltration_m allow_edge_outflow (zeros_like dem) = Inr w
           \<and> is_grid R C w \<and> nonneg w" for k
  proof -
    from run_returns[OF assms(1) e z] obtain w where
      r: "run k dem ?p infiltration_m allow_edge_outflow (zeros_like dem) = Inr w" and
      g: "is_grid R C w"
      by blast
    from r nonneg_zeros_like have "nonneg w" by (rule run_nonneg)
    with r g show ?thesis by blast
  qed
  moreover have "simulate dem rainfall_mm steps infiltration_m allow_edge_outflow =
      run (nat steps) dem ?p infiltration_m allow_edge_outflow (zeros_like dem)"
    using assms(4) by (simp add: simulate_def)
  ultimately show ?thesis by blast
qed

theorem depth_never_negative_witness:
  "is_grid 1 2 [[1, 0]] \<and> (0::nat) < 1 \<and> (0::nat) < 2 \<and> (0::int) < 3 \<and>
   simulate [[1, 0]] 50 3 (1 / 1000) True =
     run (nat 3) [[1, 0]] (50 / 1000 / real_of_int 3) (1 / 1000) True (zeros_like [[1, 0]])
   \<and> (\<forall>k. \<exists>w. run k [[1, 0]] (50 / 1000 / real_of_int 3) (1 / 1000) True (zeros_like [[1, 0]])
                  = Inr w \<and> is_grid 1 2 w \<and> nonneg w)"
proof -
  have h: "is_grid 1 2 [[1, 0]]" by (simp add: is_grid_def)
  have r: "(0::nat) < 1" and c: "(0::nat) < 2" and s: "(0::int) < 3" by simp_all
  from depth_never_negative[OF h r c s, of 50 "1 / 1000" True] h r c s
  show ?thesis by blast
qed

subsection \<open>The flat scenario\<close>

text \<open>
  Claim C7, as amended: on the flat 4 by 4 terrain, 100 mm of rain in 10 steps without
  infiltration and without edge outflow leave 0.1 m in every cell (100 mm are 0.1 m, ten
  steps of 0.01 m each), in exact arithmetic.
\<close>

theorem flat_scenario_depth:
  "simulate (replicate 4 (replicate 4 0)) 100 10 0 False = Inr (replicate 4 (replicate 4 (1 / 10)))"
proof -
  have "run 10 (replicate 4 (replicate 4 0)) (1 / 100) 0 False (replicate 4 (replicate 4 0)) =
      Inr (replicate 4 (replicate 4 (0 + of_nat 10 * (1 / 100))))"
    by (rule run_flat) simp_all
  then show ?thesis
    by (simp add: simulate_def zeros_like_def)
qed

text \<open>
  Claim C7 as stated, about 0.01 m in every cell, fails: no cell is within 0.05 m of 0.01 m.
\<close>

theorem flat_scenario_counterexample:
  "\<not> approx_all (1 / 100) (5 / 100)
       (simulate (replicate 4 (replicate 4 0)) 100 10 0 False)"
proof -
  have "run 10 (replicate 4 (replicate 4 0)) (1 / 100) 0 False (replicate 4 (replicate 4 0)) =
      Inr (replicate 4 (replicate 4 (0 + of_nat 10 * (1 / 100))))"
    by (rule run_flat) simp_all
  then have "simulate (replicate 4 (replicate 4 0)) 100 10 0 False =
      Inr (replicate 4 (replicate 4 (1 / 10)))"
    by (simp add: simulate_def zeros_like_def)
  then show ?thesis
    by (simp add: approx_all_def eval_nat_numeral)
qed

subsection \<open>Outflow potential and removal\<close>

text \<open>
  Claim C8: after the rain, with the surface \<open>H\<close> the sum of elevation and depth, the
  flux of cell \<open>(r, c)\<close> is the sum over its four neighbours, taken with wrap-around, of
  the positive part of the difference of the surfaces, all read from \<open>H\<close>; the removal
  then leaves \<open>max 0 (depth - 0.2 * flux)\<close> in the cell; and the step goes on from there
  with the inflow, the infiltration and the edge outflow.
\<close>

theorem outflow_potential_and_removal:
  assumes "is_grid R C dem" "is_grid R C water" "r < R" "c < C"
  shows "let w1 = add_scalar water rain_per_step;
             H = grid_add dem w1;
             flux = flux_of H;
             moved = scale 0.2 flux;
             w2 = clip0 (grid_sub w1 moved)
         in H ! r ! c = dem ! r ! c + (water ! r ! c + rain_per_step)
          \<and> flux ! r ! c =
                max 0 (H ! r ! c - H ! ((r + 1) mod R) ! c)
              + max 0 (H ! r ! c - H ! ((r + R - 1) mod R) ! c)
              + max 0 (H ! r ! c - H ! r ! ((c + 1) mod C))
              + max 0 (H ! r ! c - H ! r ! ((c + C - 1) mod C))
          \<and> w2 ! r ! c = max 0 (w1 ! r ! c - 0.2 * flux ! r ! c)
          \<and> step dem rain_per_step infiltration_m allow_edge_outflow water =
              (let w3 = clip0 (sub_scalar (inflow w2 moved) infiltration_m)
               in if allow_edge_outflow then edge_outflow w3 else Inr w3)"
proof -
  define w1 where "w1 = add_scalar water rain_per_step"
  define H where "H = grid_add dem w1"
  define flux where "flux = flux_of H"
  define moved where "moved = scale 0.2 flux"
  define w2 where "w2 = clip0 (grid_sub w1 moved)"
  have g1: "is_grid R C w1"
    unfolding w1_def using assms(2) by (rule is_grid_add_scalar)
  have gH: "is_grid R C H"
    unfolding H_def using assms(1) g1 by (rule is_grid_grid_add)
  have gf: "is_grid R C flux"
    unfolding flux_def using gH by (rule is_grid_flux_of)
  have gm: "is_grid R C moved"
    unfolding moved_def using gf by (rule is_grid_scale)
  have a: "H ! r ! c = dem ! r ! c + (water ! r ! c + rain_per_step)"
    unfolding H_def w1_def
    using assms by (simp add: nth_grid_add[where R=R and C=C] is_grid_add_scalar
        nth_add_scalar[where R=R and C=C])
  have b: "flux ! r ! c =
                max 0 (H ! r ! c - H ! ((r + 1) mod R) ! c)
              + max 0 (H ! r ! c - H ! ((r + R - 1) mod R) ! c)
              + max 0 (H ! r ! c - H ! r ! ((c + 1) mod C))
              + max 0 (H ! r ! c - H ! r ! ((c + C - 1) mod C))"
    unfolding flux_def using gH assms(3,4) by (rule nth_flux_of)
  have d: "w2 ! r ! c = max 0 (w1 ! r ! c - 0.2 * flux ! r ! c)"
    unfolding w2_def moved_def
    using g1 gf assms(3,4)
    by (simp add: nth_clip0[where R=R and C=C] nth_grid_sub[where R=R and C=C]
        nth_scale[where R=R and C=C] is_grid_grid_sub is_grid_scale)
  have s: "step dem rain_per_step infiltration_m allow_edge_outflow water =
              (let w3 = clip0 (sub_scalar (inflow w2 moved) infiltration_m)
               in if allow_edge_outflow then edge_outflow w3 else Inr w3)"
    by (simp add: step_def Let_def w1_def H_def flux_def moved_def w2_def)
  from a b d s show ?thesis
    unfolding Let_def w1_def H_def flux_def moved_def w2_def by blast
qed

theorem outflow_potential_and_removal_witness:
  "is_grid 3 3 [[0, 0, 0], [0, 1, 0], [0, 0, 0]] \<and>
   is_grid 3 3 [[0, 0, 0], [0, 0, 0], [0, 0, 0]] \<and> (1::nat) < 3 \<and>
   (let w1 = add_scalar [[0, 0, 0], [0, 0, 0], [0, 0, 0]] (1 / 20);
        H = grid_add [[0, 0, 0], [0, 1, 0], [0, 0, 0]] w1;
        flux = flux_of H;
        moved = scale 0.2 flux;
        w2 = clip0 (grid_sub w1 moved)
    in H ! 1 ! 1 = [[0, 0, 0], [0, 1, 0], [0, 0, 0]] ! 1 ! 1
                   + ([[0, 0, 0], [0, 0, 0], [0, 0, 0]] ! 1 ! 1 + 1 / 20)
     \<and> flux ! 1 ! 1 =
           max 0 (H ! 1 ! 1 - H ! ((1 + 1) mod 3) ! 1)
         + max 0 (H ! 1 ! 1 - H ! ((1 + 3 - 1) mod 3) ! 1)
         + max 0 (H ! 1 ! 1 - H ! 1 ! ((1 + 1) mod 3))
         + max 0 (H ! 1 ! 1 - H ! 1 ! ((1 + 3 - 1) mod 3))
     \<and> w2 ! 1 ! 1 = max 0 (w1 ! 1 ! 1 - 0.2 * flux ! 1 ! 1)
     \<and> step [[0, 0, 0], [0, 1, 0], [0, 0, 0]] (1 / 20) 0 False
           [[0, 0, 0], [0, 0, 0], [0, 0, 0]] =
         (let w3 = clip0 (sub_scalar (inflow w2 moved) 0)
          in if False then edge_outflow w3 else Inr w3))"
proof -
  have d: "is_grid 3 3 [[0, 0, 0], [0, 1, 0], [0, 0, 0]]"
    and w: "is_grid 3 3 [[0, 0, 0], [0, 0, 0], [0, 0, 0]]"
    by (simp_all add: is_grid_def)
  have r: "(1::nat) < 3" by simp
  from outflow_potential_and_removal[OF d w r r, of "1 / 20" 0 False] d w r show ?thesis
    by blast
qed

subsection \<open>Failures\<close>




subsection \<open>The elevation array is not written\<close>

text \<open>
  Claim C10: a run leaves the elevation array as it was and returns an array that is not
  the elevation array. On the store: every array that existed before the call, the
  elevation array among them, holds the same values after it, also when the run raises;
  the returned address is new, so it differs from the one of the elevation array; and
  the array at the returned address is the result of \<open>simulate\<close> on the values.
\<close>

theorem elevation_unchanged:
  assumes "dem < length s"
  shows "case simulate_st dem rainfall_mm steps infiltration_m allow_edge_outflow s of
           (s', res) \<Rightarrow>
             length s \<le> length s' \<and> (\<forall>a<length s. s' ! a = s ! a) \<and> s' ! dem = s ! dem \<and>
             (case res of
                Inl err \<Rightarrow>
                  simulate (s ! dem) rainfall_mm steps infiltration_m allow_edge_outflow = Inl err
              | Inr water \<Rightarrow>
                  water \<noteq> dem \<and> length s \<le> water \<and> water < length s' \<and>
                  simulate (s ! dem) rainfall_mm steps infiltration_m allow_edge_outflow
                    = Inr (s' ! water))"
proof (cases "steps = 0")
  case True
  with assms show ?thesis
    by (simp add: simulate_st_def simulate_def new_def nth_append)
next
  case False
  define s0 where "s0 = s @ [zeros_like (s ! dem)]"
  define p where "p = rainfall_mm / 1000 / real_of_int steps"
  have a: "dem < length s0" "length s < length s0" "dem \<noteq> length s"
    and v: "s0 ! dem = s ! dem" "s0 ! length s = zeros_like (s ! dem)"
    and k0: "keeps s {} s0"
    using assms by (simp_all add: s0_def nth_append keeps_def)
  have st: "simulate_st dem rainfall_mm steps infiltration_m allow_edge_outflow s =
      run_st (nat steps) dem p infiltration_m allow_edge_outflow (length s) s0"
    using False by (simp add: simulate_st_def new_def s0_def p_def)
  have pu: "simulate (s ! dem) rainfall_mm steps infiltration_m allow_edge_outflow =
      run (nat steps) (s ! dem) p infiltration_m allow_edge_outflow (zeros_like (s ! dem))"
    using False by (simp add: simulate_def p_def)
  obtain s' res where
    e: "run_st (nat steps) dem p infiltration_m allow_edge_outflow (length s) s0 = (s', res)"
    by force
  have fresh: "\<forall>a\<in>{length s}. a \<in> {} \<or> length s \<le> a" by simp
  show ?thesis
  proof (cases res)
    case (Inl err)
    with run_st_spec[OF a, of "nat steps" p infiltration_m allow_edge_outflow] e have
      k: "keeps s0 {length s} s'" and
      r: "run (nat steps) (s ! dem) p infiltration_m allow_edge_outflow (zeros_like (s ! dem))
            = Inl err"
      by (simp_all add: v)
    from keeps_fresh[OF k0 k fresh] have "keeps s {} s'" .
    with assms r st pu e Inl show ?thesis
      by (simp add: keeps_def)
  next
    case (Inr w)
    with run_st_spec[OF a, of "nat steps" p infiltration_m allow_edge_outflow] e have
      k: "keeps s0 {length s} s'" and f: "w = length s \<or> length s0 \<le> w" and l: "w < length s'"
      and r: "run (nat steps) (s ! dem) p infiltration_m allow_edge_outflow (zeros_like (s ! dem))
            = Inr (s' ! w)"
      by (simp_all add: v)
    from keeps_fresh[OF k0 k fresh] have ks: "keeps s {} s'" .
    from f a have "length s \<le> w" by auto
    with ks assms r st pu e Inr l show ?thesis
      by (auto simp: keeps_def)
  qed
qed

theorem elevation_unchanged_witness:
  "(0::nat) < length [[[1, 0 :: real]]] \<and>
   (case simulate_st 0 50 2 0 True [[[1, 0]]] of
           (s', res) \<Rightarrow>
             length [[[1, 0 :: real]]] \<le> length s' \<and>
             (\<forall>a<length [[[1, 0 :: real]]]. s' ! a = [[[1, 0]]] ! a) \<and>
             s' ! 0 = [[[1, 0]]] ! 0 \<and>
             (case res of
                Inl err \<Rightarrow> simulate ([[[1, 0]]] ! 0) 50 2 0 True = Inl err
              | Inr water \<Rightarrow>
                  water \<noteq> 0 \<and> length [[[1, 0 :: real]]] \<le> water \<and> water < length s' \<and>
                  simulate ([[[1, 0]]] ! 0) 50 2 0 True = Inr (s' ! water)))"
proof -
  have h: "(0::nat) < length [[[1, 0 :: real]]]" by simp
  from elevation_unchanged[OF h, of 50 2 0 True] h show ?thesis
    by blast
qed

end
